theory Spec2Isabelle
  imports Main "HOL-Library.Word"
begin

section \<open>Parallel memory copy of MMCore: \<open>TaskSet_CopyMemory\<close>\<close>

text \<open>
  The development embeds \<^verbatim>\<open>src/MMCore/TaskSet_CopyMemory.cpp\<close>.

  \<^item> \<^verbatim>\<open>size_t\<close> is a 64-bit word (the x64 build): \<open>+\<close> and \<open>*\<close> wrap, \<open>div\<close>,
    \<open>mod\<close>, \<open>min\<close> and the comparisons are unsigned.
  \<^item> A pointer is the address of a byte, a natural number; \<^verbatim>\<open>NULL\<close> is address 0.
    The memory is a total function from addresses to bytes.
  \<^item> \<^verbatim>\<open>assert\<close> is modelled as compiled in: a failed assertion aborts, which is the
    result \<open>None\<close>.
  \<^item> The objects are records; a member function takes the object (and the world it acts
    on) and returns the updated one.
  \<^item> The worker threads are modelled by interleaving: the pool runs the tasks one after
    the other, in an order that is a parameter of the model. The tasks of one request
    write separate chunks and read only the source buffer, which none of them writes.
\<close>

subsection \<open>Memory and the copy primitive\<close>

type_synonym size_t = "64 word"
type_synonym addr = nat
type_synonym memory = "addr \<Rightarrow> 8 word"

definition NULL :: addr where
  "NULL = 0"

text \<open>
  \<^verbatim>\<open>std::memcpy(d, s, n)\<close>: every byte of \<open>[d, d + n)\<close> receives the byte of the source
  at the same offset, read from the memory before the call; nothing else changes. The C
  library leaves the result undefined when the two ranges overlap; every statement below
  that depends on the copied values assumes separate ranges.
\<close>

definition memcpy :: "memory \<Rightarrow> addr \<Rightarrow> addr \<Rightarrow> nat \<Rightarrow> memory" where
  "memcpy m d s n = (\<lambda>a. if d \<le> a \<and> a < d + n then m (s + (a - d)) else m a)"

text \<open>The two buffers of a copy request do not overlap.\<close>

definition separate :: "addr \<Rightarrow> addr \<Rightarrow> nat \<Rightarrow> bool" where
  "separate d s n \<longleftrightarrow> d + n \<le> s \<or> s + n \<le> d"

subsection \<open>The world outside the object\<close>

text \<open>
  What a call can touch besides the task set: the memory, and the two collaborators,
  the thread pool and the semaphore. Their use is recorded as a trace.
\<close>

datatype event =
    PoolRun nat            \<comment> \<open>the pool ran the task in this slot\<close>
  | SemaphoreWait size_t   \<comment> \<open>\<^verbatim>\<open>semaphore_->Wait(n)\<close> was called\<close>

record world =
  mem :: memory
  trace :: "event list"

subsection \<open>\<open>TaskSet_CopyMemory::ATask\<close>\<close>

text \<open>
  The members \<^verbatim>\<open>taskIndex_\<close>, \<^verbatim>\<open>usedTaskCount_\<close>, \<^verbatim>\<open>dst_\<close>, \<^verbatim>\<open>src_\<close> and \<^verbatim>\<open>bytes_\<close> of
  a task; a name cannot end with an underscore here, and the task's own used count is set
  apart from the one of the task set by its prefix.
\<close>

record ATask =
  taskIndex :: size_t
  task_usedTaskCount :: size_t
  task_dst :: addr
  task_src :: addr
  task_bytes :: size_t

text \<open>
  The constructor: the base class \<^verbatim>\<open>Task\<close> stores the index and, as the comment in the
  source says, starts \<^verbatim>\<open>usedTaskCount_\<close> at \<^verbatim>\<open>totalTaskCount\<close>.
\<close>

definition ATask_ctor :: "size_t \<Rightarrow> size_t \<Rightarrow> ATask" where
  "ATask_ctor index totalTaskCount =
     \<lparr>taskIndex = index, task_usedTaskCount = totalTaskCount,
      task_dst = NULL, task_src = NULL, task_bytes = 0\<rparr>"

definition ATask_SetUp :: "ATask \<Rightarrow> addr \<Rightarrow> addr \<Rightarrow> size_t \<Rightarrow> size_t \<Rightarrow> ATask" where
  "ATask_SetUp t dst src bytes used =
     t\<lparr>task_dst := dst, task_src := src, task_bytes := bytes, task_usedTaskCount := used\<rparr>"

text \<open>
  The first half of \<^verbatim>\<open>ATask::Execute\<close>: \<open>None\<close> when the task returns at once, otherwise
  the pair \<^verbatim>\<open>(chunkOffset, chunkBytes)\<close> it computes.
\<close>

definition chunk :: "ATask \<Rightarrow> (size_t \<times> size_t) option" where
  "chunk t =
     (if taskIndex t \<ge> task_usedTaskCount t then None
      else
        let chunkBytes = task_bytes t div task_usedTaskCount t;
            chunkOffset = taskIndex t * chunkBytes;
            chunkBytes' = (if taskIndex t = task_usedTaskCount t - 1
                           then chunkBytes + task_bytes t mod task_usedTaskCount t
                           else chunkBytes)
        in Some (chunkOffset, chunkBytes'))"

text \<open>The second half: the copy of the chunk.\<close>

definition ATask_Execute :: "ATask \<Rightarrow> memory \<Rightarrow> memory" where
  "ATask_Execute t m =
     (case chunk t of
        None \<Rightarrow> m
      | Some (chunkOffset, chunkBytes) \<Rightarrow>
          memcpy m (task_dst t + unat chunkOffset) (task_src t + unat chunkOffset) (unat chunkBytes))"

subsection \<open>\<open>TaskSet_CopyMemory\<close>\<close>

record TaskSet_CopyMemory =
  tasks :: "ATask list"
  usedTaskCount :: size_t

text \<open>
  Modelled from the spec: \<^verbatim>\<open>TaskSet::CreateTasks\<close> (the header \<^verbatim>\<open>TaskSet.h\<close> is not among
  the sources). It "instantiates exactly one T per pool thread"; slot \<open>i\<close> gets index
  \<open>i\<close>, and the comment at the call says the used count starts at the pool size.
\<close>

definition TaskSet_CopyMemory_ctor :: "nat \<Rightarrow> TaskSet_CopyMemory" where
  "TaskSet_CopyMemory_ctor poolSize =
     \<lparr>tasks = map (\<lambda>i. ATask_ctor (of_nat i) (of_nat poolSize)) [0..<poolSize],
      usedTaskCount = of_nat poolSize\<rparr>"

text \<open>
  \<^verbatim>\<open>TaskSet_CopyMemory::SetUp\<close>: the three assertions, the choice of the used count, the
  inline copy with its early return when a single task is chosen, and otherwise the setup
  of every task.
\<close>

definition SetUp ::
  "TaskSet_CopyMemory \<Rightarrow> world \<Rightarrow> addr \<Rightarrow> addr \<Rightarrow> size_t \<Rightarrow> (TaskSet_CopyMemory \<times> world) option" where
  "SetUp ts w dst src bytes =
     (if dst = NULL \<or> src = NULL \<or> \<not> bytes > 0 then None
      else
        let used = min (1 + bytes div 1000000) (of_nat (length (tasks ts)));
            ts1 = ts\<lparr>usedTaskCount := used\<rparr>
        in if usedTaskCount ts1 = 1
           then Some (ts1, w\<lparr>mem := memcpy (mem w) dst src (unat bytes)\<rparr>)
           else Some (ts1\<lparr>tasks := map (\<lambda>t. ATask_SetUp t dst src bytes (usedTaskCount ts1))
                                      (tasks ts1)\<rparr>, w))"

text \<open>
  Modelled from the spec: the run of one task by a worker thread of the pool
  (\<^verbatim>\<open>ThreadPool.cpp\<close> is not among the sources). The pool "accepts a task for execution"
  and runs its \<^verbatim>\<open>Execute\<close>; the run is recorded in the trace. One task runs to its end
  before the next one starts. A slot number that names no task is passed over.
\<close>

definition run_slot :: "ATask list \<Rightarrow> nat \<Rightarrow> world \<Rightarrow> world" where
  "run_slot ts i w =
     (if i < length ts
      then w\<lparr>mem := ATask_Execute (ts ! i) (mem w), trace := trace w @ [PoolRun i]\<rparr>
      else w)"

text \<open>
  Modelled from the spec: \<^verbatim>\<open>TaskSet::Execute\<close> (\<^verbatim>\<open>TaskSet.cpp\<close> is not among the sources),
  the submission of the tasks followed by their runs on the pool, which gives "no ordering
  guarantee": the order of the runs is the parameter \<open>sched\<close>. The call returns here
  with the runs done; in the program it is \<^verbatim>\<open>Wait\<close> that "blocks until exactly
  usedTaskCount signals have been received", after which "all partition writes are visible
  to the invoker".
\<close>

definition TaskSet_Execute :: "TaskSet_CopyMemory \<Rightarrow> nat list \<Rightarrow> world \<Rightarrow> world" where
  "TaskSet_Execute ts sched w = fold (run_slot (tasks ts)) sched w"

text \<open>
  \<^verbatim>\<open>TaskSet_CopyMemory::Execute\<close>, \<^verbatim>\<open>Wait\<close> and \<^verbatim>\<open>MemCopy\<close>. The semaphore is not among
  the sources; the call \<^verbatim>\<open>semaphore_->Wait(usedTaskCount_)\<close> is recorded in the trace with
  the threshold it passes.
\<close>

definition Execute :: "TaskSet_CopyMemory \<Rightarrow> nat list \<Rightarrow> world \<Rightarrow> world" where
  "Execute ts sched w =
     (if usedTaskCount ts = 1 then w else TaskSet_Execute ts sched w)"

definition Wait :: "TaskSet_CopyMemory \<Rightarrow> world \<Rightarrow> world" where
  "Wait ts w =
     (if usedTaskCount ts = 1 then w
      else w\<lparr>trace := trace w @ [SemaphoreWait (usedTaskCount ts)]\<rparr>)"

definition MemCopy ::
  "TaskSet_CopyMemory \<Rightarrow> nat list \<Rightarrow> world \<Rightarrow> addr \<Rightarrow> addr \<Rightarrow> size_t \<Rightarrow> (TaskSet_CopyMemory \<times> world) option" where
  "MemCopy ts sched w dst src bytes =
     (case SetUp ts w dst src bytes of
        None \<Rightarrow> None
      | Some (ts1, w1) \<Rightarrow> Some (ts1, Wait ts1 (Execute ts1 sched w1)))"

subsection \<open>Well-formed task sets and schedules\<close>

text \<open>
  What construction establishes and every call keeps: there is at least one slot (a pool
  has at least one thread), the number of slots fits a \<^verbatim>\<open>size_t\<close>, and slot \<open>i\<close> holds
  the task of index \<open>i\<close>.
\<close>

definition well_formed :: "TaskSet_CopyMemory \<Rightarrow> bool" where
  "well_formed ts \<longleftrightarrow>
     1 \<le> length (tasks ts) \<and> length (tasks ts) < 2 ^ 64 \<and>
     (\<forall>i < length (tasks ts). taskIndex (tasks ts ! i) = of_nat i)"

text \<open>
  The pool runs every used slot at least once ("guarantees eventual execution"); whether
  it also runs unused slots, and in which order, is left open.
\<close>

definition runs_used :: "TaskSet_CopyMemory \<Rightarrow> nat list \<Rightarrow> bool" where
  "runs_used ts sched \<longleftrightarrow> (\<forall>i < unat (usedTaskCount ts). i \<in> set sched)"

subsection \<open>Notions used to state the properties\<close>

text \<open>
  The bytes a task copies, as offsets from the start of the two buffers: the half-open
  range from \<^verbatim>\<open>chunkOffset\<close> of length \<^verbatim>\<open>chunkBytes\<close>, empty for a task that returns at
  once.
\<close>

definition chunk_range :: "ATask \<Rightarrow> nat set" where
  "chunk_range t =
     (case chunk t of
        None \<Rightarrow> {}
      | Some (chunkOffset, chunkBytes) \<Rightarrow> {unat chunkOffset ..< unat chunkOffset + unat chunkBytes})"

text \<open>The task of slot \<open>i\<close> in a set of \<open>totalTaskCount\<close> slots, after a setup.\<close>

definition slot :: "nat \<Rightarrow> size_t \<Rightarrow> addr \<Rightarrow> addr \<Rightarrow> size_t \<Rightarrow> size_t \<Rightarrow> ATask" where
  "slot i totalTaskCount dst src bytes used =
     ATask_SetUp (ATask_ctor (of_nat i) totalTaskCount) dst src bytes used"

text \<open>A task that holds the parameters of a request.\<close>

definition set_up_for :: "ATask \<Rightarrow> addr \<Rightarrow> addr \<Rightarrow> size_t \<Rightarrow> size_t \<Rightarrow> bool" where
  "set_up_for t dst src bytes used \<longleftrightarrow>
     task_dst t = dst \<and> task_src t = src \<and> task_bytes t = bytes \<and> task_usedTaskCount t = used"

text \<open>
  A caller that invokes \<^verbatim>\<open>MemCopy\<close> with the same arguments once for every schedule of
  the list, one call after the other on the same object.
\<close>

fun MemCopy_repeated ::
  "TaskSet_CopyMemory \<Rightarrow> nat list list \<Rightarrow> world \<Rightarrow> addr \<Rightarrow> addr \<Rightarrow> size_t \<Rightarrow> (TaskSet_CopyMemory \<times> world) option" where
  "MemCopy_repeated ts [] w dst src bytes = Some (ts, w)"
| "MemCopy_repeated ts (sched # scheds) w dst src bytes =
     (case MemCopy ts sched w dst src bytes of
        None \<Rightarrow> None
      | Some (ts1, w1) \<Rightarrow> MemCopy_repeated ts1 scheds w1 dst src bytes)"

section \<open>Properties\<close>

subsection \<open>The number of used tasks\<close>

lemma unat_size_t_less: "unat (x :: size_t) < 2 ^ 64"
  using unsigned_less [of x, where ?'a = nat] by simp

lemma unat_used:
  assumes "n < 2 ^ 64"
  shows "unat (min (1 + bytes div 1000000) (of_nat n :: size_t)) = min (1 + unat bytes div 1000000) n"
proof -
  have b: "unat bytes < 2 ^ 64" by (rule unat_size_t_less)
  have "unat (bytes div 1000000) = unat bytes div 1000000"
    by (simp add: unat_div)
  moreover have "1 + unat bytes div 1000000 < 2 ^ 64" using b by simp
  ultimately have a: "unat (1 + bytes div 1000000) = 1 + unat bytes div 1000000"
    by (simp add: unat_add_lem [THEN iffD1])
  have c: "unat (of_nat n :: size_t) = n" using assms by (simp add: unat_of_nat)
  show ?thesis
    using a c by (simp add: min_def word_le_nat_alt)
qed

subsection \<open>The arithmetic of the partition\<close>

text \<open>
  With \<open>U\<close> chunks over \<open>N\<close> bytes, chunk \<open>i\<close> starts at \<open>i * (N div U)\<close>; the chunks
  stay inside \<open>[0, N)\<close>, reach every byte of it, and two of them never share a byte.
\<close>

lemma chunk_end_le:
  fixes i U N :: nat
  assumes "i < U"
  shows "i * (N div U) + (if Suc i = U then N div U + N mod U else N div U) \<le> N"
proof -
  have "Suc i * (N div U) \<le> U * (N div U)"
    using assms by (intro mult_le_mono1) simp
  also have "\<dots> \<le> N" by simp
  finally have a: "i * (N div U) + N div U \<le> N" by simp
  show ?thesis
  proof (cases "Suc i = U")
    case True
    then have "i * (N div U) + (N div U + N mod U) = U * (N div U) + N mod U"
      by (metis add.assoc add.commute mult_Suc)
    then show ?thesis using True by simp
  next
    case False
    then show ?thesis using a by simp
  qed
qed

lemma chunk_cover:
  fixes b U N :: nat
  assumes "0 < U" "b < N"
  shows "\<exists>i<U. i * (N div U) \<le> b \<and> b < i * (N div U) + (if Suc i = U then N div U + N mod U else N div U)"
proof (cases "b < (U - 1) * (N div U)")
  case True
  then have q: "0 < N div U" by (cases "N div U = 0") auto
  let ?i = "b div (N div U)"
  have "?i < U - 1" using True q
    by (simp add: less_mult_imp_div_less)
  moreover have "?i * (N div U) \<le> b" by simp
  moreover have "b < ?i * (N div U) + N div U"
    using q by (metis add.commute dividend_less_div_times mult.commute)
  ultimately show ?thesis
    by (intro exI [of _ ?i]) auto
next
  case False
  have "(U - 1) * (N div U) + (N div U + N mod U) = U * (N div U) + N mod U"
    using assms(1) by (cases U) simp_all
  then have "b < (U - 1) * (N div U) + (N div U + N mod U)"
    using assms(2) by simp
  then show ?thesis using False assms(1)
    by (intro exI [of _ "U - 1"]) auto
qed

lemma chunk_unique:
  fixes b i j U N :: nat
  assumes "i < j" "j < U"
    and "b < i * (N div U) + (if Suc i = U then N div U + N mod U else N div U)"
    and "j * (N div U) \<le> b"
  shows False
proof -
  have "Suc i \<noteq> U" using assms(1,2) by simp
  then have "b < Suc i * (N div U)" using assms(3) by simp
  moreover have "Suc i * (N div U) \<le> j * (N div U)"
    using assms(1) by (intro mult_le_mono1) simp
  ultimately show False using assms(4) by simp
qed


text \<open>
  The \<^verbatim>\<open>size_t\<close> arithmetic of a task that does not return at once never wraps, so
  its chunk is the one of the arithmetic above.
\<close>

lemma unat_chunkOffset:
  fixes k u n :: size_t
  assumes "k < u"
  shows "unat (k * (n div u)) = unat k * (unat n div unat u)"
proof -
  have "unat k < unat u" using assms by (simp add: word_less_nat_alt)
  from chunk_end_le [OF this, of "unat n"]
  have "unat k * (unat n div unat u) \<le> unat n" by simp
  then have "unat k * unat (n div u) < 2 ^ 64"
    using unat_size_t_less [of n] by (simp add: unat_div)
  then show ?thesis
    by (simp add: unat_mult_lem [THEN iffD1] unat_div)
qed

lemma unat_last_chunkBytes:
  fixes u n :: size_t
  assumes "u \<noteq> 0"
  shows "unat (n div u + n mod u) = unat n div unat u + unat n mod unat u"
proof -
  have "0 < unat u" using assms by (simp add: unat_gt_0)
  then have "unat u - 1 < unat u" "Suc (unat u - 1) = unat u" by simp_all
  from chunk_end_le [OF this(1), of "unat n"] this(2)
  have "unat n div unat u + unat n mod unat u \<le> unat n" by simp
  then have "unat (n div u) + unat (n mod u) < 2 ^ 64"
    using unat_size_t_less [of n] by (simp add: unat_div unat_mod)
  then show ?thesis
    by (simp add: unat_add_lem [THEN iffD1] unat_div unat_mod)
qed

text \<open>The test for the last task, \<^verbatim>\<open>taskIndex_ == usedTaskCount_ - 1\<close>, on the values.\<close>

lemma last_index_iff:
  fixes k u :: size_t
  assumes "k < u"
  shows "k = u - 1 \<longleftrightarrow> Suc (unat k) = unat u"
proof -
  have ku: "unat k < unat u" using assms by (simp add: word_less_nat_alt)
  then have u0: "u \<noteq> 0" by auto
  show ?thesis
  proof
    assume "k = u - 1"
    then have "unat k = unat u - 1" using u0 by (simp add: unat_minus_one)
    then show "Suc (unat k) = unat u" using ku by simp
  next
    assume "Suc (unat k) = unat u"
    then have "unat k = unat (u - 1)" using u0 by (simp add: unat_minus_one)
    then show "k = u - 1" by (simp add: word_unat_eq_iff)
  qed
qed

lemma chunk_unat:
  assumes "taskIndex t < task_usedTaskCount t"
  shows "\<exists>off len. chunk t = Some (off, len) \<and>
           unat off = unat (taskIndex t) * (unat (task_bytes t) div unat (task_usedTaskCount t)) \<and>
           unat len = (if Suc (unat (taskIndex t)) = unat (task_usedTaskCount t)
                       then unat (task_bytes t) div unat (task_usedTaskCount t)
                            + unat (task_bytes t) mod unat (task_usedTaskCount t)
                       else unat (task_bytes t) div unat (task_usedTaskCount t))"
proof -
  have u0: "task_usedTaskCount t \<noteq> 0" using assms by auto
  have nn: "\<not> task_usedTaskCount t \<le> taskIndex t" using assms by simp
  show ?thesis
    using nn unat_chunkOffset [OF assms] unat_last_chunkBytes [OF u0] last_index_iff [OF assms]
    by (simp add: chunk_def Let_def unat_div)
qed

lemma well_formed_ctor: "1 \<le> n \<Longrightarrow> n < 2 ^ 64 \<Longrightarrow> well_formed (TaskSet_CopyMemory_ctor n)"
  by (simp add: well_formed_def TaskSet_CopyMemory_ctor_def ATask_ctor_def)

text \<open>With its assertions met, \<^verbatim>\<open>SetUp\<close> returns, and with this used count.\<close>

lemma SetUp_returns:
  assumes "dst \<noteq> NULL" "src \<noteq> NULL" "0 < bytes"
  shows "\<exists>ts1 w1. SetUp ts w dst src bytes = Some (ts1, w1) \<and>
           usedTaskCount ts1 = min (1 + bytes div 1000000) (of_nat (length (tasks ts))) \<and>
           length (tasks ts1) = length (tasks ts)"
  using assms by (simp add: SetUp_def Let_def)

text \<open>
  Claim C2. For a request of \<open>bytes > 0\<close> bytes on a task set of at least one slot,
  \<^verbatim>\<open>SetUp\<close> returns with \<^verbatim>\<open>usedTaskCount_\<close> equal to the minimum of
  \<open>1 + bytes / 1000000\<close> (integer division) and the number of slots. The sum does not
  wrap: the same equation holds for the values read as natural numbers.
\<close>

theorem SetUp_usedTaskCount:
  assumes "well_formed ts" "dst \<noteq> NULL" "src \<noteq> NULL" "0 < bytes"
  shows "\<exists>ts1 w1. SetUp ts w dst src bytes = Some (ts1, w1) \<and>
           usedTaskCount ts1 = min (1 + bytes div 1000000) (of_nat (length (tasks ts))) \<and>
           unat (usedTaskCount ts1) = min (1 + unat bytes div 1000000) (length (tasks ts))"
proof -
  have n: "length (tasks ts) < 2 ^ 64" using assms(1) by (simp add: well_formed_def)
  obtain ts1 w1 where s: "SetUp ts w dst src bytes = Some (ts1, w1)"
    and u: "usedTaskCount ts1 = min (1 + bytes div 1000000) (of_nat (length (tasks ts)))"
    using SetUp_returns [OF assms(2-4)] by blast
  have "unat (usedTaskCount ts1) = min (1 + unat bytes div 1000000) (length (tasks ts))"
    unfolding u using n by (rule unat_used)
  then show ?thesis using s u by blast
qed

theorem SetUp_usedTaskCount_witness:
  "well_formed (TaskSet_CopyMemory_ctor 4) \<and> (16::addr) \<noteq> NULL \<and> (8000000::addr) \<noteq> NULL \<and>
   (0::size_t) < 2500000 \<and>
   (\<exists>ts1 w1. SetUp (TaskSet_CopyMemory_ctor 4) \<lparr>mem = (\<lambda>a. 0), trace = []\<rparr> 16 8000000 2500000
                = Some (ts1, w1) \<and>
      usedTaskCount ts1
        = min (1 + 2500000 div 1000000) (of_nat (length (tasks (TaskSet_CopyMemory_ctor 4)))) \<and>
      unat (usedTaskCount ts1)
        = min (1 + unat (2500000::size_t) div 1000000) (length (tasks (TaskSet_CopyMemory_ctor 4))))"
proof -
  have a: "well_formed (TaskSet_CopyMemory_ctor 4)" by (rule well_formed_ctor) simp_all
  have b: "(16::addr) \<noteq> NULL" "(8000000::addr) \<noteq> NULL" by (simp_all add: NULL_def)
  have c: "(0::size_t) < 2500000" by simp
  show ?thesis
    using a b c SetUp_usedTaskCount [OF a b c, of "\<lparr>mem = (\<lambda>a. 0), trace = []\<rparr>"] by simp
qed

text \<open>
  Claim C6. For \<open>bytes > 0\<close> and at least one slot, after \<^verbatim>\<open>SetUp\<close> the used count is at
  least 1 and at most the number of slots, which \<^verbatim>\<open>SetUp\<close> does not change.
\<close>

theorem usedTaskCount_bounds:
  assumes "well_formed ts" "dst \<noteq> NULL" "src \<noteq> NULL" "0 < bytes"
  shows "\<exists>ts1 w1. SetUp ts w dst src bytes = Some (ts1, w1) \<and>
           1 \<le> unat (usedTaskCount ts1) \<and>
           unat (usedTaskCount ts1) \<le> length (tasks ts1) \<and>
           length (tasks ts1) = length (tasks ts)"
proof -
  have n: "length (tasks ts) < 2 ^ 64" "1 \<le> length (tasks ts)"
    using assms(1) by (simp_all add: well_formed_def)
  obtain ts1 w1 where s: "SetUp ts w dst src bytes = Some (ts1, w1)"
    and u: "usedTaskCount ts1 = min (1 + bytes div 1000000) (of_nat (length (tasks ts)))"
    and l: "length (tasks ts1) = length (tasks ts)"
    using SetUp_returns [OF assms(2-4)] by blast
  have "unat (usedTaskCount ts1) = min (1 + unat bytes div 1000000) (length (tasks ts))"
    unfolding u using n(1) by (rule unat_used)
  then have "1 \<le> unat (usedTaskCount ts1) \<and> unat (usedTaskCount ts1) \<le> length (tasks ts1)"
    using n(2) l by simp
  then show ?thesis using s l by blast
qed

theorem usedTaskCount_bounds_witness:
  "well_formed (TaskSet_CopyMemory_ctor 2) \<and> (4096::addr) \<noteq> NULL \<and> (64::addr) \<noteq> NULL \<and>
   (0::size_t) < 7000000 \<and>
   (\<exists>ts1 w1. SetUp (TaskSet_CopyMemory_ctor 2) \<lparr>mem = (\<lambda>a. 1), trace = []\<rparr> 4096 64 7000000
                = Some (ts1, w1) \<and>
      1 \<le> unat (usedTaskCount ts1) \<and>
      unat (usedTaskCount ts1) \<le> length (tasks ts1) \<and>
      length (tasks ts1) = length (tasks (TaskSet_CopyMemory_ctor 2)))"
proof -
  have a: "well_formed (TaskSet_CopyMemory_ctor 2)" by (rule well_formed_ctor) simp_all
  have b: "(4096::addr) \<noteq> NULL" "(64::addr) \<noteq> NULL" by (simp_all add: NULL_def)
  have c: "(0::size_t) < 7000000" by simp
  show ?thesis
    using a b c usedTaskCount_bounds [OF a b c, of "\<lparr>mem = (\<lambda>a. 1), trace = []\<rparr>"] by simp
qed

subsection \<open>Unused tasks\<close>

text \<open>
  Claim C5. A task whose index is at least its used count returns from \<^verbatim>\<open>Execute\<close> at
  once: it computes no chunk and calls no copy, so the memory, the destination buffer
  included, is what it was. (\<^verbatim>\<open>ATask::Execute\<close> assigns no member on any path, which is why
  the model returns the memory alone.)
\<close>

theorem unused_task_skips:
  assumes "task_usedTaskCount t \<le> taskIndex t"
  shows "chunk t = None \<and> ATask_Execute t m = m"
  using assms by (simp add: chunk_def ATask_Execute_def)

theorem unused_task_skips_witness:
  "task_usedTaskCount \<lparr>taskIndex = 3, task_usedTaskCount = 2, task_dst = 16, task_src = 8000000,
                        task_bytes = 2000000\<rparr>
     \<le> taskIndex \<lparr>taskIndex = 3, task_usedTaskCount = 2, task_dst = 16, task_src = 8000000,
                       task_bytes = 2000000\<rparr> \<and>
   chunk \<lparr>taskIndex = 3, task_usedTaskCount = 2, task_dst = 16, task_src = 8000000,
          task_bytes = 2000000\<rparr> = None \<and>
   ATask_Execute \<lparr>taskIndex = 3, task_usedTaskCount = 2, task_dst = 16, task_src = 8000000,
                  task_bytes = 2000000\<rparr> (\<lambda>a. 7) = (\<lambda>a. 7)"
  using unused_task_skips [of "\<lparr>taskIndex = 3, task_usedTaskCount = 2, task_dst = 16,
    task_src = 8000000, task_bytes = 2000000\<rparr>" "\<lambda>a. 7"] by simp

subsection \<open>The chunks of the tasks\<close>

lemma unat_index:
  assumes "i < unat (u :: size_t)"
  shows "unat (of_nat i :: size_t) = i"
proof -
  have "i < 2 ^ 64" using assms unat_size_t_less [of u] by simp
  then show ?thesis by (simp add: unat_of_nat)
qed

lemma chunk_range_eq:
  assumes "taskIndex t < task_usedTaskCount t"
  shows "chunk_range t =
           {unat (taskIndex t) * (unat (task_bytes t) div unat (task_usedTaskCount t)) ..<
            unat (taskIndex t) * (unat (task_bytes t) div unat (task_usedTaskCount t))
            + (if Suc (unat (taskIndex t)) = unat (task_usedTaskCount t)
               then unat (task_bytes t) div unat (task_usedTaskCount t)
                    + unat (task_bytes t) mod unat (task_usedTaskCount t)
               else unat (task_bytes t) div unat (task_usedTaskCount t))}"
proof -
  obtain off len where "chunk t = Some (off, len)"
    and "unat off = unat (taskIndex t) * (unat (task_bytes t) div unat (task_usedTaskCount t))"
    and "unat len = (if Suc (unat (taskIndex t)) = unat (task_usedTaskCount t)
                       then unat (task_bytes t) div unat (task_usedTaskCount t)
                            + unat (task_bytes t) mod unat (task_usedTaskCount t)
                       else unat (task_bytes t) div unat (task_usedTaskCount t))"
    using chunk_unat [OF assms] by blast
  then show ?thesis by (simp add: chunk_range_def)
qed

lemma chunk_range_None: "task_usedTaskCount t \<le> taskIndex t \<Longrightarrow> chunk_range t = {}"
  by (simp add: chunk_range_def chunk_def)

lemma chunk_range_subset: "chunk_range t \<subseteq> {0..<unat (task_bytes t)}"
proof (cases "taskIndex t < task_usedTaskCount t")
  case True
  then have "unat (taskIndex t) < unat (task_usedTaskCount t)" by (simp add: word_less_nat_alt)
  from chunk_end_le [OF this, of "unat (task_bytes t)"] show ?thesis
    unfolding chunk_range_eq [OF True] by auto
next
  case False
  then show ?thesis by (simp add: chunk_range_None)
qed

lemma slot_simps:
  "taskIndex (slot i n dst src bytes used) = of_nat i"
  "task_usedTaskCount (slot i n dst src bytes used) = used"
  "task_bytes (slot i n dst src bytes used) = bytes"
  "task_dst (slot i n dst src bytes used) = dst"
  "task_src (slot i n dst src bytes used) = src"
  by (simp_all add: slot_def ATask_SetUp_def ATask_ctor_def)

text \<open>The ranges of tasks with the same request, by their indices.\<close>

lemma chunk_range_slot:
  assumes "i < unat used"
  shows "chunk_range (slot i n dst src bytes used) =
           {i * (unat bytes div unat used) ..<
            i * (unat bytes div unat used)
            + (if Suc i = unat used then unat bytes div unat used + unat bytes mod unat used
               else unat bytes div unat used)}"
proof -
  have i: "unat (of_nat i :: size_t) = i" using assms by (rule unat_index)
  then have "taskIndex (slot i n dst src bytes used) < task_usedTaskCount (slot i n dst src bytes used)"
    using assms by (simp add: slot_simps word_less_nat_alt)
  from chunk_range_eq [OF this] show ?thesis by (simp add: slot_simps i)
qed

text \<open>
  Claim C3. For \<open>bytes > 0\<close> and a used count above 1, the chunks that the tasks of
  indices \<open>0, \<dots>, usedTaskCount - 1\<close> compute cover \<open>[0, bytes)\<close> with no gap and nothing
  outside, and no two of them share a byte. Task \<open>i\<close> computes the offset
  \<open>i * (bytes / usedTaskCount)\<close> and the length \<open>bytes / usedTaskCount\<close>, the last one
  \<open>bytes / usedTaskCount + bytes % usedTaskCount\<close>; none of these \<^verbatim>\<open>size_t\<close> operations
  wraps.
\<close>

theorem chunks_partition:
  assumes "1 < used" "0 < bytes"
  shows "(\<Union>i<unat used. chunk_range (slot i n dst src bytes used)) = {0..<unat bytes} \<and>
    (\<forall>i<unat used. \<forall>j<unat used. i \<noteq> j \<longrightarrow>
       chunk_range (slot i n dst src bytes used) \<inter> chunk_range (slot j n dst src bytes used) = {}) \<and>
    (\<forall>i<unat used.
       chunk (slot i n dst src bytes used)
         = Some (of_nat i * (bytes div used),
                 if Suc i = unat used then bytes div used + bytes mod used else bytes div used) \<and>
       unat (of_nat i * (bytes div used) :: size_t) = i * (unat bytes div unat used) \<and>
       unat (bytes div used) = unat bytes div unat used) \<and>
    unat (bytes div used + bytes mod used) = unat bytes div unat used + unat bytes mod unat used"
proof (intro conjI allI impI)
  let ?U = "unat used" and ?N = "unat bytes"
  have U: "0 < ?U" using assms(1) by (simp add: word_less_nat_alt)
  show "(\<Union>i<?U. chunk_range (slot i n dst src bytes used)) = {0..<?N}"
  proof (intro equalityI subsetI)
    fix b assume "b \<in> (\<Union>i<?U. chunk_range (slot i n dst src bytes used))"
    then obtain i where "b \<in> chunk_range (slot i n dst src bytes used)" by blast
    then show "b \<in> {0..<?N}"
      using chunk_range_subset [of "slot i n dst src bytes used"] by (auto simp add: slot_simps)
  next
    fix b assume "b \<in> {0..<?N}"
    then have "b < ?N" by simp
    from chunk_cover [OF U this] obtain i where "i < ?U"
      and "i * (?N div ?U) \<le> b"
      and "b < i * (?N div ?U) + (if Suc i = ?U then ?N div ?U + ?N mod ?U else ?N div ?U)"
      by blast
    then have "b \<in> chunk_range (slot i n dst src bytes used)"
      by (simp add: chunk_range_slot)
    then show "b \<in> (\<Union>i<?U. chunk_range (slot i n dst src bytes used))"
      using \<open>i < ?U\<close> by blast
  qed
next
  fix i j assume ij: "i < unat used" "j < unat used" "i \<noteq> j"
  show "chunk_range (slot i n dst src bytes used) \<inter> chunk_range (slot j n dst src bytes used) = {}"
  proof (rule ccontr)
    assume "chunk_range (slot i n dst src bytes used) \<inter> chunk_range (slot j n dst src bytes used) \<noteq> {}"
    then obtain b where bi: "b \<in> chunk_range (slot i n dst src bytes used)"
      and bj: "b \<in> chunk_range (slot j n dst src bytes used)" by blast
    consider "i < j" | "j < i" using ij(3) by linarith
    then show False
    proof cases
      case 1
      then show False
        using chunk_unique [OF 1 ij(2), of b "unat bytes"] bi bj ij(1,2)
        by (simp add: chunk_range_slot)
    next
      case 2
      then show False
        using chunk_unique [OF 2 ij(1), of b "unat bytes"] bi bj ij(1,2)
        by (simp add: chunk_range_slot)
    qed
  qed
next
  fix i assume i: "i < unat used"
  have ui: "unat (of_nat i :: size_t) = i" using i by (rule unat_index)
  then have lt: "(of_nat i :: size_t) < used" using i by (simp add: word_less_nat_alt)
  then have nle: "\<not> used \<le> (of_nat i :: size_t)" by simp
  have "(of_nat i :: size_t) = used - 1 \<longleftrightarrow> Suc i = unat used"
    using last_index_iff [OF lt] ui by simp
  then show "chunk (slot i n dst src bytes used)
         = Some (of_nat i * (bytes div used),
                 if Suc i = unat used then bytes div used + bytes mod used else bytes div used)"
    using nle by (simp add: chunk_def slot_simps Let_def)
  show "unat (of_nat i * (bytes div used) :: size_t) = i * (unat bytes div unat used)"
    using unat_chunkOffset [OF lt, of bytes] ui by simp
  show "unat (bytes div used) = unat bytes div unat used" by (simp add: unat_div)
next
  have "used \<noteq> 0" using assms(1) by auto
  then show "unat (bytes div used + bytes mod used) = unat bytes div unat used + unat bytes mod unat used"
    by (rule unat_last_chunkBytes)
qed


theorem chunks_partition_witness:
  "(1::size_t) < 3 \<and> (0::size_t) < 10 \<and>
   (\<Union>i<unat (3::size_t). chunk_range (slot i 4 16 64 10 3)) = {0..<unat (10::size_t)} \<and>
   (0::nat) < unat (3::size_t) \<and> (2::nat) < unat (3::size_t) \<and> (0::nat) \<noteq> 2 \<and>
   chunk_range (slot 0 4 16 64 10 3) \<inter> chunk_range (slot 2 4 16 64 10 3) = {} \<and>
   chunk (slot 2 4 16 64 10 3) = Some (2 * (10 div 3), 10 div 3 + 10 mod 3) \<and>
   chunk (slot 0 4 16 64 10 3) = Some (0 * (10 div 3), 10 div 3) \<and>
   unat (2 * (10 div 3) :: size_t) = 2 * (unat (10::size_t) div unat (3::size_t)) \<and>
   unat ((10::size_t) div 3 + 10 mod 3)
     = unat (10::size_t) div unat (3::size_t) + unat (10::size_t) mod unat (3::size_t)"
proof -
  have h: "(1::size_t) < 3" "(0::size_t) < 10" by simp_all
  have i: "(0::nat) < unat (3::size_t)" "(2::nat) < unat (3::size_t)" "(0::nat) \<noteq> 2"
    by simp_all
  note p = chunks_partition [OF h, of 4 16 64]
  have u: "(\<Union>i<unat (3::size_t). chunk_range (slot i 4 16 64 10 3)) = {0..<unat (10::size_t)}"
    using p by blast
  have d: "chunk_range (slot 0 4 16 64 10 3) \<inter> chunk_range (slot 2 4 16 64 10 3) = {}"
    using p i by blast
  have c2: "chunk (slot 2 4 16 64 10 3)
              = Some (of_nat 2 * (10 div 3),
                      if Suc 2 = unat (3::size_t) then 10 div 3 + 10 mod 3 else 10 div 3)"
    and o2: "unat (of_nat 2 * (10 div 3) :: size_t) = 2 * (unat (10::size_t) div unat (3::size_t))"
    using p i(2) by blast+
  have c0: "chunk (slot 0 4 16 64 10 3)
              = Some (of_nat 0 * (10 div 3),
                      if Suc 0 = unat (3::size_t) then 10 div 3 + 10 mod 3 else 10 div 3)"
    using p i(1) by blast
  have l: "unat ((10::size_t) div 3 + 10 mod 3)
             = unat (10::size_t) div unat (3::size_t) + unat (10::size_t) mod unat (3::size_t)"
    using p by blast
  show ?thesis
    using h i u d c2 c0 o2 l by simp
qed

subsection \<open>The scenario of four slots and 3,500,000 bytes\<close>

lemma list4:
  assumes "length xs = 4"
  obtains a b c d where "xs = [a, b, c, d]"
  using assms by (auto simp add: eval_nat_numeral length_Suc_conv)

text \<open>
  Claim C9. With four slots and \<open>bytes = 3500000\<close>, \<^verbatim>\<open>SetUp\<close> chooses four tasks; the
  tasks 0 to 2 compute chunks of 875,000 bytes at the offsets 0, 875,000 and 1,750,000,
  the last one 875,000 bytes (the remainder is 0) at offset 2,625,000, and the four ranges
  follow one another from 0 to 3,500,000.
\<close>

theorem scenario_3500000:
  assumes "well_formed ts" "length (tasks ts) = 4" "dst \<noteq> NULL" "src \<noteq> NULL"
  shows "\<exists>ts1. SetUp ts w dst src 3500000 = Some (ts1, w) \<and>
           usedTaskCount ts1 = 4 \<and>
           map chunk (tasks ts1)
             = [Some (0, 875000), Some (875000, 875000), Some (1750000, 875000),
                Some (2625000, 875000)] \<and>
           map chunk_range (tasks ts1)
             = [{0..<875000}, {875000..<1750000}, {1750000..<2625000}, {2625000..<3500000}] \<and>
           (3500000::size_t) mod 4 = 0"
proof -
  obtain t0 t1 t2 t3 where l: "tasks ts = [t0, t1, t2, t3]"
    using assms(2) by (rule list4)
  have a: "\<And>i. i < 4 \<Longrightarrow> taskIndex ([t0, t1, t2, t3] ! i) = of_nat i"
    using assms(1) l by (simp add: well_formed_def)
  have i: "taskIndex t0 = 0" "taskIndex t1 = 1" "taskIndex t2 = 2" "taskIndex t3 = 3"
    using a [of 0] a [of 1] a [of 2] a [of 3] by simp_all
  have n: "\<not> (4::size_t) \<le> 1" by (simp add: word_le_nat_alt)
  show ?thesis
    using assms(3,4) l i n
    by (simp add: SetUp_def Let_def ATask_SetUp_def chunk_def chunk_range_def)
qed

theorem scenario_3500000_witness:
  "well_formed (TaskSet_CopyMemory_ctor 4) \<and> length (tasks (TaskSet_CopyMemory_ctor 4)) = 4 \<and>
   (1024::addr) \<noteq> NULL \<and> (9000000::addr) \<noteq> NULL \<and>
   (\<exists>ts1. SetUp (TaskSet_CopyMemory_ctor 4) \<lparr>mem = (\<lambda>a. 0), trace = []\<rparr> 1024 9000000 3500000
             = Some (ts1, \<lparr>mem = (\<lambda>a. 0), trace = []\<rparr>) \<and>
           usedTaskCount ts1 = 4 \<and>
           map chunk (tasks ts1)
             = [Some (0, 875000), Some (875000, 875000), Some (1750000, 875000),
                Some (2625000, 875000)] \<and>
           map chunk_range (tasks ts1)
             = [{0..<875000}, {875000..<1750000}, {1750000..<2625000}, {2625000..<3500000}] \<and>
           (3500000::size_t) mod 4 = 0)"
proof -
  have a: "well_formed (TaskSet_CopyMemory_ctor 4)" by (rule well_formed_ctor) simp_all
  have b: "length (tasks (TaskSet_CopyMemory_ctor 4)) = 4"
    by (simp add: TaskSet_CopyMemory_ctor_def)
  have c: "(1024::addr) \<noteq> NULL" "(9000000::addr) \<noteq> NULL" by (simp_all add: NULL_def)
  from scenario_3500000 [OF a b c, of "\<lparr>mem = (\<lambda>a. 0), trace = []\<rparr>"] a b c
  show ?thesis by blast
qed


subsection \<open>The effect of the tasks on the memory\<close>

lemma ATask_Execute_apply:
  "ATask_Execute t m a =
     (if task_dst t \<le> a \<and> a - task_dst t \<in> chunk_range t
      then m (task_src t + (a - task_dst t)) else m a)"
proof (cases "chunk t")
  case None
  then show ?thesis by (simp add: ATask_Execute_def chunk_range_def)
next
  case (Some p)
  obtain off len where p: "p = (off, len)" by (cases p)
  have "task_dst t + unat off \<le> a \<Longrightarrow>
          task_src t + unat off + (a - (task_dst t + unat off)) = task_src t + (a - task_dst t)"
    by simp
  then show ?thesis
    using Some p by (auto simp add: ATask_Execute_def chunk_range_def memcpy_def)
qed

lemma memcpy_idem:
  assumes "separate d s n"
  shows "memcpy (memcpy m d s n) d s n = memcpy m d s n"
  using assms by (auto simp add: memcpy_def separate_def fun_eq_iff)

lemma run_slot_mem:
  "mem (run_slot T i w) = (if i < length T then ATask_Execute (T ! i) (mem w) else mem w)"
  by (simp add: run_slot_def)

lemma run_slot_frame:
  assumes "\<forall>t\<in>set T. set_up_for t dst src bytes used"
    and "a < dst \<or> dst + unat bytes \<le> a"
  shows "mem (run_slot T i w) a = mem w a"
proof (cases "i < length T")
  case True
  then have s: "set_up_for (T ! i) dst src bytes used" using assms(1) by simp
  have "chunk_range (T ! i) \<subseteq> {0..<unat bytes}"
    using chunk_range_subset [of "T ! i"] s by (simp add: set_up_for_def)
  then have "\<not> (dst \<le> a \<and> a - dst \<in> chunk_range (T ! i))"
    using assms(2) by auto
  then show ?thesis
    using True s by (auto simp add: run_slot_mem ATask_Execute_apply set_up_for_def)
next
  case False
  then show ?thesis by (simp add: run_slot_mem)
qed

lemma fold_frame:
  assumes "\<forall>t\<in>set T. set_up_for t dst src bytes used"
    and "a < dst \<or> dst + unat bytes \<le> a"
  shows "mem (fold (run_slot T) sched w) a = mem w a"
proof (induction sched arbitrary: w)
  case Nil
  show ?case by simp
next
  case (Cons i sched)
  show ?case using Cons.IH [of "run_slot T i w"] run_slot_frame [OF assms, of i w] by simp
qed

lemma fold_copied:
  assumes T: "\<forall>t\<in>set T. set_up_for t dst src bytes used"
    and sep: "separate dst src (unat bytes)"
    and i: "i < length T" "b \<in> chunk_range (T ! i)"
  shows "i \<in> set sched \<Longrightarrow> mem (fold (run_slot T) sched w) (dst + b) = mem w (src + b)"
proof (induction sched rule: rev_induct)
  case Nil
  then show ?case by simp
next
  case (snoc x xs)
  let ?w = "fold (run_slot T) xs w"
  have b: "b < unat bytes"
    using chunk_range_subset [of "T ! i"] i T by (auto simp add: set_up_for_def)
  have out: "src + b < dst \<or> dst + unat bytes \<le> src + b"
    using sep b by (auto simp add: separate_def)
  show ?case
  proof (cases "x < length T \<and> b \<in> chunk_range (T ! x)")
    case True
    then have s: "set_up_for (T ! x) dst src bytes used" using T by simp
    have "mem (run_slot T x ?w) (dst + b) = mem ?w (src + b)"
      using True s by (simp add: run_slot_mem ATask_Execute_apply set_up_for_def)
    also have "\<dots> = mem w (src + b)" using T out by (rule fold_frame)
    finally show ?thesis by simp
  next
    case False
    then have "x \<noteq> i" using i by auto
    then have ih: "mem ?w (dst + b) = mem w (src + b)" using snoc by simp
    have "mem (run_slot T x ?w) (dst + b) = mem ?w (dst + b)"
    proof (cases "x < length T")
      case True
      then have s: "set_up_for (T ! x) dst src bytes used" using T by simp
      show ?thesis
        using True False s by (simp add: run_slot_mem ATask_Execute_apply set_up_for_def)
    next
      case False
      then show ?thesis by (simp add: run_slot_mem)
    qed
    then show ?thesis using ih by simp
  qed
qed

text \<open>Every byte of the request lies in the chunk of a used slot.\<close>

lemma used_slot_covers:
  assumes T: "\<forall>t\<in>set T. set_up_for t dst src bytes used"
    and idx: "\<forall>i<length T. taskIndex (T ! i) = of_nat i"
    and u: "0 < unat used" "unat used \<le> length T"
    and b: "b < unat bytes"
  shows "\<exists>i<unat used. b \<in> chunk_range (T ! i)"
proof -
  from chunk_cover [OF u(1) b] obtain i where i: "i < unat used"
    and lo: "i * (unat bytes div unat used) \<le> b"
    and hi: "b < i * (unat bytes div unat used)
               + (if Suc i = unat used then unat bytes div unat used + unat bytes mod unat used
                  else unat bytes div unat used)"
    by blast
  have l: "i < length T" using i u(2) by simp
  then have s: "set_up_for (T ! i) dst src bytes used" using T by simp
  have k: "taskIndex (T ! i) = of_nat i" using idx l by simp
  have ui: "unat (of_nat i :: size_t) = i" using i by (rule unat_index)
  have "taskIndex (T ! i) < task_usedTaskCount (T ! i)"
    using s k ui i by (simp add: set_up_for_def word_less_nat_alt)
  from chunk_range_eq [OF this] have "b \<in> chunk_range (T ! i)"
    using s k ui lo hi by (auto simp add: set_up_for_def split: if_splits)
  then show ?thesis using i by blast
qed

lemma fold_eq_memcpy:
  assumes T: "\<forall>t\<in>set T. set_up_for t dst src bytes used"
    and idx: "\<forall>i<length T. taskIndex (T ! i) = of_nat i"
    and u: "0 < unat used" "unat used \<le> length T"
    and sep: "separate dst src (unat bytes)"
    and sched: "\<forall>i<unat used. i \<in> set sched"
  shows "mem (fold (run_slot T) sched w) = memcpy (mem w) dst src (unat bytes)"
proof
  fix a
  show "mem (fold (run_slot T) sched w) a = memcpy (mem w) dst src (unat bytes) a"
  proof (cases "dst \<le> a \<and> a < dst + unat bytes")
    case True
    then have b: "a - dst < unat bytes" and a: "a = dst + (a - dst)" by linarith+
    from used_slot_covers [OF T idx u b] obtain i where i: "i < unat used"
      and c: "a - dst \<in> chunk_range (T ! i)" by blast
    have "mem (fold (run_slot T) sched w) (dst + (a - dst)) = mem w (src + (a - dst))"
      using T sep _ c
    proof (rule fold_copied)
      show "i < length T" using i u(2) by simp
      show "i \<in> set sched" using sched i by simp
    qed
    then show ?thesis using True a by (simp add: memcpy_def)
  next
    case False
    then have "a < dst \<or> dst + unat bytes \<le> a" by auto
    from fold_frame [OF T this] show ?thesis using False by (auto simp add: memcpy_def)
  qed
qed

subsection \<open>The copy\<close>

lemma SetUp_degenerate:
  assumes "dst \<noteq> NULL" "src \<noteq> NULL" "0 < bytes"
    and "min (1 + bytes div 1000000) (of_nat (length (tasks ts))) = 1"
  shows "SetUp ts w dst src bytes
           = Some (ts\<lparr>usedTaskCount := 1\<rparr>, w\<lparr>mem := memcpy (mem w) dst src (unat bytes)\<rparr>)"
  using assms by (simp add: SetUp_def Let_def)

lemma SetUp_parallel:
  assumes "dst \<noteq> NULL" "src \<noteq> NULL" "0 < bytes"
    and "min (1 + bytes div 1000000) (of_nat (length (tasks ts))) \<noteq> 1"
  shows "SetUp ts w dst src bytes
           = Some (\<lparr>tasks = map (\<lambda>t. ATask_SetUp t dst src bytes
                                      (min (1 + bytes div 1000000) (of_nat (length (tasks ts)))))
                                (tasks ts),
                    usedTaskCount = min (1 + bytes div 1000000) (of_nat (length (tasks ts)))\<rparr>, w)"
  using assms by (simp add: SetUp_def Let_def)

lemma well_formed_used_bounds:
  assumes "well_formed ts"
  shows "0 < unat (min (1 + bytes div 1000000) (of_nat (length (tasks ts)) :: size_t))"
    and "unat (min (1 + bytes div 1000000) (of_nat (length (tasks ts)) :: size_t)) \<le> length (tasks ts)"
proof -
  have n: "length (tasks ts) < 2 ^ 64" "1 \<le> length (tasks ts)"
    using assms by (simp_all add: well_formed_def)
  show "0 < unat (min (1 + bytes div 1000000) (of_nat (length (tasks ts)) :: size_t))"
    using n(2) by (auto simp add: unat_used [OF n(1)])
  show "unat (min (1 + bytes div 1000000) (of_nat (length (tasks ts)) :: size_t)) \<le> length (tasks ts)"
    by (simp add: unat_used [OF n(1)])
qed

lemma Wait_mem: "mem (Wait ts w) = mem w"
  by (simp add: Wait_def)

text \<open>
  The whole effect of \<^verbatim>\<open>MemCopy\<close> on the memory is the one of a single \<^verbatim>\<open>memcpy\<close> of the
  request, on both paths and for every schedule that runs the used slots.
\<close>

lemma MemCopy_result:
  assumes wfts: "well_formed ts" and pre: "dst \<noteq> NULL" "src \<noteq> NULL" "0 < bytes"
    and sep: "separate dst src (unat bytes)"
    and s: "SetUp ts w dst src bytes = Some (ts1, w1)"
    and r: "runs_used ts1 sched"
  shows "\<exists>w2. MemCopy ts sched w dst src bytes = Some (ts1, w2) \<and>
               mem w2 = memcpy (mem w) dst src (unat bytes)"
proof (cases "min (1 + bytes div 1000000) (of_nat (length (tasks ts)) :: size_t) = 1")
  case True
  from SetUp_degenerate [OF pre True, of w] s
  have "ts1 = ts\<lparr>usedTaskCount := 1\<rparr>" "w1 = w\<lparr>mem := memcpy (mem w) dst src (unat bytes)\<rparr>"
    by simp_all
  then show ?thesis
    using s by (simp add: MemCopy_def Execute_def Wait_def)
next
  case False
  let ?U = "min (1 + bytes div 1000000) (of_nat (length (tasks ts)) :: size_t)"
  let ?T = "map (\<lambda>t. ATask_SetUp t dst src bytes ?U) (tasks ts)"
  from SetUp_parallel [OF pre False, of w] s
  have ts1: "ts1 = \<lparr>tasks = ?T, usedTaskCount = ?U\<rparr>" and w1: "w1 = w" by simp_all
  have T: "\<forall>t\<in>set ?T. set_up_for t dst src bytes ?U"
    by (simp add: set_up_for_def ATask_SetUp_def)
  have idx: "\<forall>i<length ?T. taskIndex (?T ! i) = of_nat i"
    using wfts by (simp add: well_formed_def ATask_SetUp_def)
  have u: "0 < unat ?U" "unat ?U \<le> length ?T"
    using well_formed_used_bounds [OF wfts, of bytes] by simp_all
  have sched: "\<forall>i<unat ?U. i \<in> set sched"
    using r ts1 by (simp add: runs_used_def)
  have "mem (fold (run_slot ?T) sched w) = memcpy (mem w) dst src (unat bytes)"
    using T idx u sep sched by (rule fold_eq_memcpy)
  then have "mem (Wait ts1 (Execute ts1 sched w1)) = memcpy (mem w) dst src (unat bytes)"
    using False ts1 w1 by (simp add: Wait_mem Execute_def TaskSet_Execute_def)
  then show ?thesis
    using s by (simp add: MemCopy_def)
qed

text \<open>
  Claim C1. For a request that meets the precondition (both pointers non-null,
  \<open>bytes > 0\<close>, separate buffers) on a well-formed task set, \<^verbatim>\<open>SetUp\<close> returns, and for
  every schedule of the pool that runs each used slot \<^verbatim>\<open>MemCopy\<close> returns with the bytes
  \<open>dst[0..bytes)\<close> equal to the bytes \<open>src[0..bytes)\<close> of the memory before the call. No
  case is made of the size: sizes below the threshold, at it and above it are covered.
\<close>

theorem MemCopy_copies:
  assumes "well_formed ts" "dst \<noteq> NULL" "src \<noteq> NULL" "0 < bytes" "separate dst src (unat bytes)"
  shows "\<exists>ts1 w1. SetUp ts w dst src bytes = Some (ts1, w1) \<and>
           (\<forall>sched. runs_used ts1 sched \<longrightarrow>
              (\<exists>w2. MemCopy ts sched w dst src bytes = Some (ts1, w2) \<and>
                     (\<forall>i<unat bytes. mem w2 (dst + i) = mem w (src + i))))"
proof -
  obtain ts1 w1 where s: "SetUp ts w dst src bytes = Some (ts1, w1)"
    using SetUp_returns [OF assms(2-4)] by blast
  have "\<exists>w2. MemCopy ts sched w dst src bytes = Some (ts1, w2) \<and>
              (\<forall>i<unat bytes. mem w2 (dst + i) = mem w (src + i))"
    if r: "runs_used ts1 sched" for sched
  proof -
    from MemCopy_result [OF assms s r] obtain w2
      where m: "MemCopy ts sched w dst src bytes = Some (ts1, w2)"
        and e: "mem w2 = memcpy (mem w) dst src (unat bytes)" by blast
    have "\<forall>i<unat bytes. mem w2 (dst + i) = mem w (src + i)"
      by (simp add: e memcpy_def)
    then show ?thesis using m by blast
  qed
  then show ?thesis using s by blast
qed

theorem MemCopy_copies_witness:
  "well_formed (TaskSet_CopyMemory_ctor 2) \<and> (16::addr) \<noteq> NULL \<and> (4000000::addr) \<noteq> NULL \<and>
   (0::size_t) < 2000001 \<and> separate 16 4000000 (unat (2000001::size_t)) \<and>
   (\<exists>ts1 w1. SetUp (TaskSet_CopyMemory_ctor 2) \<lparr>mem = (\<lambda>a. of_nat a), trace = []\<rparr> 16 4000000 2000001
                = Some (ts1, w1) \<and>
      runs_used ts1 [1, 0] \<and>
      (\<exists>w2. MemCopy (TaskSet_CopyMemory_ctor 2) [1, 0] \<lparr>mem = (\<lambda>a. of_nat a), trace = []\<rparr>
                16 4000000 2000001 = Some (ts1, w2) \<and>
             mem w2 (16 + 1500000) = mem \<lparr>mem = (\<lambda>a. of_nat a), trace = []\<rparr> (4000000 + 1500000)))"
proof -
  let ?w = "\<lparr>mem = (\<lambda>a. of_nat a), trace = []\<rparr> :: world"
  have a: "well_formed (TaskSet_CopyMemory_ctor 2)" by (rule well_formed_ctor) simp_all
  have b: "(16::addr) \<noteq> NULL" "(4000000::addr) \<noteq> NULL" by (simp_all add: NULL_def)
  have c: "(0::size_t) < 2000001" by simp
  have d: "separate 16 4000000 (unat (2000001::size_t))" by (simp add: separate_def)
  from MemCopy_copies [OF a b c d, of ?w] obtain ts1 w1
    where s: "SetUp (TaskSet_CopyMemory_ctor 2) ?w 16 4000000 2000001 = Some (ts1, w1)"
      and m: "\<And>sched. runs_used ts1 sched \<Longrightarrow>
                \<exists>w2. MemCopy (TaskSet_CopyMemory_ctor 2) sched ?w 16 4000000 2000001 = Some (ts1, w2) \<and>
                     (\<forall>i<unat (2000001::size_t). mem w2 (16 + i) = mem ?w (4000000 + i))"
    by blast
  from SetUp_returns [OF b c, of "TaskSet_CopyMemory_ctor 2" ?w] s
  have "usedTaskCount ts1 = min (1 + 2000001 div 1000000) (of_nat (length (tasks (TaskSet_CopyMemory_ctor 2))))"
    by auto
  then have "usedTaskCount ts1 = 2"
    by (simp add: TaskSet_CopyMemory_ctor_def)
  then have r: "runs_used ts1 [1, 0]"
    by (auto simp add: runs_used_def)
  from m [OF r] obtain w2
    where m2: "MemCopy (TaskSet_CopyMemory_ctor 2) [1, 0] ?w 16 4000000 2000001 = Some (ts1, w2)"
      and e: "\<forall>i<unat (2000001::size_t). mem w2 (16 + i) = mem ?w (4000000 + i)"
    by blast
  have "(1500000::nat) < unat (2000001::size_t)" by simp
  with e have "mem w2 (16 + 1500000) = mem ?w (4000000 + 1500000)" by blast
  with a b c d s r m2 show ?thesis by blast
qed

subsection \<open>Repeated calls\<close>

lemma ATask_SetUp_idem:
  "ATask_SetUp (ATask_SetUp t dst src bytes used) dst src bytes used = ATask_SetUp t dst src bytes used"
  by (simp add: ATask_SetUp_def)

text \<open>After a setup the object is what a further setup of the same request makes of it.\<close>

lemma SetUp_settled:
  assumes pre: "dst \<noteq> NULL" "src \<noteq> NULL" "0 < bytes"
    and s: "SetUp ts w dst src bytes = Some (ts1, w1)"
  shows "\<exists>w1'. SetUp ts1 w' dst src bytes = Some (ts1, w1')"
proof (cases "min (1 + bytes div 1000000) (of_nat (length (tasks ts)) :: size_t) = 1")
  case True
  from SetUp_degenerate [OF pre True, of w] s have ts1: "ts1 = ts\<lparr>usedTaskCount := 1\<rparr>"
    by simp
  then have "min (1 + bytes div 1000000) (of_nat (length (tasks ts1)) :: size_t) = 1"
    using True by simp
  from SetUp_degenerate [OF pre this, of w'] show ?thesis using ts1 by simp
next
  case False
  let ?U = "min (1 + bytes div 1000000) (of_nat (length (tasks ts)) :: size_t)"
  from SetUp_parallel [OF pre False, of w] s
  have ts1: "ts1 = \<lparr>tasks = map (\<lambda>t. ATask_SetUp t dst src bytes ?U) (tasks ts), usedTaskCount = ?U\<rparr>"
    by simp
  then have "min (1 + bytes div 1000000) (of_nat (length (tasks ts1)) :: size_t) \<noteq> 1"
    using False by simp
  from SetUp_parallel [OF pre this, of w'] show ?thesis
    using ts1 by (simp add: ATask_SetUp_idem o_def)
qed

lemma SetUp_well_formed:
  assumes "well_formed ts" "SetUp ts w dst src bytes = Some (ts1, w1)"
  shows "well_formed ts1"
  using assms by (auto simp add: SetUp_def Let_def well_formed_def ATask_SetUp_def split: if_splits)

text \<open>While the object and the memory are settled, further calls change neither.\<close>

lemma repeated_stable:
  assumes pre: "dst \<noteq> NULL" "src \<noteq> NULL" "0 < bytes"
    and sep: "separate dst src (unat bytes)"
    and wfts: "well_formed ts1"
    and settled: "\<And>w'. \<exists>w1'. SetUp ts1 w' dst src bytes = Some (ts1, w1')"
  shows "\<forall>s\<in>set scheds. runs_used ts1 s \<Longrightarrow> memcpy (mem w1) dst src (unat bytes) = mem w1 \<Longrightarrow>
         \<exists>w2. MemCopy_repeated ts1 scheds w1 dst src bytes = Some (ts1, w2) \<and> mem w2 = mem w1"
proof (induction scheds arbitrary: w1)
  case Nil
  show ?case by simp
next
  case (Cons s scheds)
  obtain w1' where s1: "SetUp ts1 w1 dst src bytes = Some (ts1, w1')" using settled by blast
  have r: "runs_used ts1 s" using Cons.prems(1) by simp
  from MemCopy_result [OF wfts pre sep s1 r] obtain w2
    where m: "MemCopy ts1 s w1 dst src bytes = Some (ts1, w2)"
      and e: "mem w2 = memcpy (mem w1) dst src (unat bytes)" by blast
  have e2: "mem w2 = mem w1" using e Cons.prems(2) by simp
  then have "memcpy (mem w2) dst src (unat bytes) = mem w2" using Cons.prems(2) by simp
  moreover have "\<forall>s\<in>set scheds. runs_used ts1 s" using Cons.prems(1) by simp
  ultimately obtain w3
    where "MemCopy_repeated ts1 scheds w2 dst src bytes = Some (ts1, w3)" "mem w3 = mem w2"
    using Cons.IH by blast
  then show ?case using m e2 by simp
qed

text \<open>
  Claim C8. For a request that meets the precondition, calling \<^verbatim>\<open>MemCopy\<close> again with the
  same arguments, any number of times and under any schedules that run the used slots,
  returns each time and leaves the memory (the destination buffer with it) and the task set
  as the first call left them.
\<close>

theorem MemCopy_idempotent:
  assumes "well_formed ts" "dst \<noteq> NULL" "src \<noteq> NULL" "0 < bytes" "separate dst src (unat bytes)"
  shows "\<exists>ts1 w1. SetUp ts w dst src bytes = Some (ts1, w1) \<and>
           (\<forall>sched scheds. runs_used ts1 sched \<and> (\<forall>s\<in>set scheds. runs_used ts1 s) \<longrightarrow>
              (\<exists>w2 w3. MemCopy ts sched w dst src bytes = Some (ts1, w2) \<and>
                        MemCopy_repeated ts (sched # scheds) w dst src bytes = Some (ts1, w3) \<and>
                        mem w3 = mem w2))"
proof -
  obtain ts1 w1 where s: "SetUp ts w dst src bytes = Some (ts1, w1)"
    using SetUp_returns [OF assms(2-4)] by blast
  have wf1: "well_formed ts1" using assms(1) s by (rule SetUp_well_formed)
  have settled: "\<exists>w1'. SetUp ts1 w' dst src bytes = Some (ts1, w1')" for w'
    using assms(2-4) s by (rule SetUp_settled)
  have "\<exists>w2 w3. MemCopy ts sched w dst src bytes = Some (ts1, w2) \<and>
                 MemCopy_repeated ts (sched # scheds) w dst src bytes = Some (ts1, w3) \<and>
                 mem w3 = mem w2"
    if r: "runs_used ts1 sched" and rs: "\<forall>s\<in>set scheds. runs_used ts1 s" for sched scheds
  proof -
    from MemCopy_result [OF assms s r] obtain w2
      where m: "MemCopy ts sched w dst src bytes = Some (ts1, w2)"
        and e: "mem w2 = memcpy (mem w) dst src (unat bytes)" by blast
    have "memcpy (mem w2) dst src (unat bytes) = mem w2"
      unfolding e using assms(5) by (rule memcpy_idem)
    from repeated_stable [OF assms(2-5) wf1 settled rs this] obtain w3
      where "MemCopy_repeated ts1 scheds w2 dst src bytes = Some (ts1, w3)" "mem w3 = mem w2"
      by blast
    then show ?thesis using m by simp
  qed
  then show ?thesis using s by blast
qed


theorem MemCopy_idempotent_witness:
  "well_formed (TaskSet_CopyMemory_ctor 2) \<and> (16::addr) \<noteq> NULL \<and> (4000000::addr) \<noteq> NULL \<and>
   (0::size_t) < 2000001 \<and> separate 16 4000000 (unat (2000001::size_t)) \<and>
   (\<exists>ts1 w1. SetUp (TaskSet_CopyMemory_ctor 2) \<lparr>mem = (\<lambda>a. of_nat a), trace = []\<rparr> 16 4000000 2000001
                = Some (ts1, w1) \<and>
      runs_used ts1 [0, 1] \<and> runs_used ts1 [1, 0] \<and> runs_used ts1 [0, 1, 1] \<and>
      (\<exists>w2 w3. MemCopy (TaskSet_CopyMemory_ctor 2) [0, 1] \<lparr>mem = (\<lambda>a. of_nat a), trace = []\<rparr>
                   16 4000000 2000001 = Some (ts1, w2) \<and>
                MemCopy_repeated (TaskSet_CopyMemory_ctor 2) [[0, 1], [1, 0], [0, 1, 1]]
                   \<lparr>mem = (\<lambda>a. of_nat a), trace = []\<rparr> 16 4000000 2000001 = Some (ts1, w3) \<and>
                mem w3 = mem w2))"
proof -
  let ?w = "\<lparr>mem = (\<lambda>a. of_nat a), trace = []\<rparr> :: world"
  have a: "well_formed (TaskSet_CopyMemory_ctor 2)" by (rule well_formed_ctor) simp_all
  have b: "(16::addr) \<noteq> NULL" "(4000000::addr) \<noteq> NULL" by (simp_all add: NULL_def)
  have c: "(0::size_t) < 2000001" by simp
  have d: "separate 16 4000000 (unat (2000001::size_t))" by (simp add: separate_def)
  from MemCopy_idempotent [OF a b c d, of ?w] obtain ts1 w1
    where s: "SetUp (TaskSet_CopyMemory_ctor 2) ?w 16 4000000 2000001 = Some (ts1, w1)"
      and m: "\<And>sched scheds. runs_used ts1 sched \<and> (\<forall>s\<in>set scheds. runs_used ts1 s) \<Longrightarrow>
                \<exists>w2 w3. MemCopy (TaskSet_CopyMemory_ctor 2) sched ?w 16 4000000 2000001 = Some (ts1, w2) \<and>
                  MemCopy_repeated (TaskSet_CopyMemory_ctor 2) (sched # scheds) ?w 16 4000000 2000001
                    = Some (ts1, w3) \<and>
                  mem w3 = mem w2"
    by blast
  from SetUp_returns [OF b c, of "TaskSet_CopyMemory_ctor 2" ?w] s
  have "usedTaskCount ts1 = min (1 + 2000001 div 1000000) (of_nat (length (tasks (TaskSet_CopyMemory_ctor 2))))"
    by auto
  then have "usedTaskCount ts1 = 2"
    by (simp add: TaskSet_CopyMemory_ctor_def)
  then have r: "runs_used ts1 [0, 1]" "runs_used ts1 [1, 0]" "runs_used ts1 [0, 1, 1]"
    by (auto simp add: runs_used_def)
  then have "runs_used ts1 [0, 1] \<and> (\<forall>s\<in>set [[1, 0], [0, 1, 1]]. runs_used ts1 s)" by simp
  from m [OF this] a b c d s r show ?thesis by blast
qed

subsection \<open>The inline path\<close>

text \<open>
  Claim C4. When \<^verbatim>\<open>SetUp\<close> chooses a single task, which it does for every request below
  1,000,000 bytes, the world it returns is the one of a direct \<^verbatim>\<open>memcpy\<close> of the request:
  the copy is done inside \<^verbatim>\<open>SetUp\<close>, and the trace, which records every use of the pool
  and of the semaphore, is unchanged. \<^verbatim>\<open>Execute\<close> and \<^verbatim>\<open>Wait\<close> then return the world as it
  is, and so \<^verbatim>\<open>MemCopy\<close> returns what \<^verbatim>\<open>SetUp\<close> returned.
\<close>

theorem degenerate_inline:
  assumes "well_formed ts" "dst \<noteq> NULL" "src \<noteq> NULL" "0 < bytes"
  shows "\<exists>ts1 w1. SetUp ts w dst src bytes = Some (ts1, w1) \<and>
           (bytes < 1000000 \<longrightarrow> usedTaskCount ts1 = 1) \<and>
           (usedTaskCount ts1 = 1 \<longrightarrow>
              w1 = w\<lparr>mem := memcpy (mem w) dst src (unat bytes)\<rparr> \<and>
              trace w1 = trace w \<and>
              (separate dst src (unat bytes) \<longrightarrow>
                 (\<forall>i<unat bytes. mem w1 (dst + i) = mem w (src + i))) \<and>
              (\<forall>sched. Execute ts1 sched w1 = w1 \<and> Wait ts1 w1 = w1 \<and>
                        MemCopy ts sched w dst src bytes = Some (ts1, w1)))"
proof -
  let ?U = "min (1 + bytes div 1000000) (of_nat (length (tasks ts)) :: size_t)"
  obtain ts1 w1 where s: "SetUp ts w dst src bytes = Some (ts1, w1)"
    and u: "usedTaskCount ts1 = ?U"
    using SetUp_returns [OF assms(2-4)] by blast
  have small: "usedTaskCount ts1 = 1" if "bytes < 1000000"
  proof -
    have "unat bytes < 1000000" using that by (simp add: word_less_nat_alt)
    then have "unat bytes div 1000000 = 0" by simp
    moreover have "1 \<le> length (tasks ts)" "length (tasks ts) < 2 ^ 64"
      using assms(1) by (simp_all add: well_formed_def)
    ultimately have "unat ?U = 1" by (simp add: unat_used)
    then show ?thesis using u by (simp add: word_unat_eq_iff)
  qed
  have inline: "w1 = w\<lparr>mem := memcpy (mem w) dst src (unat bytes)\<rparr> \<and>
              trace w1 = trace w \<and>
              (separate dst src (unat bytes) \<longrightarrow>
                 (\<forall>i<unat bytes. mem w1 (dst + i) = mem w (src + i))) \<and>
              (\<forall>sched. Execute ts1 sched w1 = w1 \<and> Wait ts1 w1 = w1 \<and>
                        MemCopy ts sched w dst src bytes = Some (ts1, w1))"
    if one: "usedTaskCount ts1 = 1"
  proof -
    have "?U = 1" using one u by simp
    from SetUp_degenerate [OF assms(2-4) this, of w] s
    have w1: "w1 = w\<lparr>mem := memcpy (mem w) dst src (unat bytes)\<rparr>" by simp
    then have "\<forall>i<unat bytes. mem w1 (dst + i) = mem w (src + i)"
      by (simp add: memcpy_def)
    moreover have "Execute ts1 sched w1 = w1" "Wait ts1 w1 = w1"
      "MemCopy ts sched w dst src bytes = Some (ts1, w1)" for sched
      using one s by (simp_all add: Execute_def Wait_def MemCopy_def)
    ultimately show ?thesis using w1 by simp
  qed
  show ?thesis using s small inline by blast
qed

theorem degenerate_inline_witness:
  "well_formed (TaskSet_CopyMemory_ctor 4) \<and> (16::addr) \<noteq> NULL \<and> (4000000::addr) \<noteq> NULL \<and>
   (0::size_t) < 500000 \<and>
   (\<exists>ts1 w1. SetUp (TaskSet_CopyMemory_ctor 4) \<lparr>mem = (\<lambda>a. of_nat a), trace = []\<rparr> 16 4000000 500000
                = Some (ts1, w1) \<and>
      (500000::size_t) < 1000000 \<and> usedTaskCount ts1 = 1 \<and>
      w1 = \<lparr>mem = (\<lambda>a. of_nat a), trace = []\<rparr>
             \<lparr>mem := memcpy (mem \<lparr>mem = (\<lambda>a. of_nat a), trace = []\<rparr>) 16 4000000 (unat (500000::size_t))\<rparr> \<and>
      trace w1 = trace \<lparr>mem = (\<lambda>a. of_nat a), trace = []\<rparr> \<and>
      separate 16 4000000 (unat (500000::size_t)) \<and>
      (123456::nat) < unat (500000::size_t) \<and>
      mem w1 (16 + 123456) = mem \<lparr>mem = (\<lambda>a. of_nat a), trace = []\<rparr> (4000000 + 123456) \<and>
      Execute ts1 [2, 0, 3, 1] w1 = w1 \<and> Wait ts1 w1 = w1 \<and>
      MemCopy (TaskSet_CopyMemory_ctor 4) [2, 0, 3, 1] \<lparr>mem = (\<lambda>a. of_nat a), trace = []\<rparr>
        16 4000000 500000 = Some (ts1, w1))"
proof -
  let ?w = "\<lparr>mem = (\<lambda>a. of_nat a), trace = []\<rparr> :: world"
  have a: "well_formed (TaskSet_CopyMemory_ctor 4)" by (rule well_formed_ctor) simp_all
  have b: "(16::addr) \<noteq> NULL" "(4000000::addr) \<noteq> NULL" by (simp_all add: NULL_def)
  have c: "(0::size_t) < 500000" by simp
  have d: "(500000::size_t) < 1000000" by simp
  have e: "separate 16 4000000 (unat (500000::size_t))" by (simp add: separate_def)
  have f: "(123456::nat) < unat (500000::size_t)" by simp
  from degenerate_inline [OF a b c, of ?w] obtain ts1 w1
    where s: "SetUp (TaskSet_CopyMemory_ctor 4) ?w 16 4000000 500000 = Some (ts1, w1)"
      and small: "(500000::size_t) < 1000000 \<longrightarrow> usedTaskCount ts1 = 1"
      and inline: "usedTaskCount ts1 = 1 \<longrightarrow>
              w1 = ?w\<lparr>mem := memcpy (mem ?w) 16 4000000 (unat (500000::size_t))\<rparr> \<and>
              trace w1 = trace ?w \<and>
              (separate 16 4000000 (unat (500000::size_t)) \<longrightarrow>
                 (\<forall>i<unat (500000::size_t). mem w1 (16 + i) = mem ?w (4000000 + i))) \<and>
              (\<forall>sched. Execute ts1 sched w1 = w1 \<and> Wait ts1 w1 = w1 \<and>
                        MemCopy (TaskSet_CopyMemory_ctor 4) sched ?w 16 4000000 500000 = Some (ts1, w1))"
    by blast
  have one: "usedTaskCount ts1 = 1" using small d by blast
  from inline one a b c d e f s show ?thesis by blast
qed

subsection \<open>The wait for the tasks\<close>

lemma fold_trace:
  "trace (fold (run_slot T) sched w) = trace w @ map PoolRun (filter (\<lambda>i. i < length T) sched)"
  by (induction sched arbitrary: w) (simp_all add: run_slot_def)

text \<open>
  Claim C7. When \<^verbatim>\<open>SetUp\<close> chooses more than one task, \<^verbatim>\<open>Wait\<close> calls the semaphore's
  wait once, and the threshold it passes is the used count that \<^verbatim>\<open>SetUp\<close> chose for this
  request; in the trace of \<^verbatim>\<open>MemCopy\<close> it is the only wait and comes after the runs of the
  pool.
\<close>

theorem Wait_threshold:
  assumes "dst \<noteq> NULL" "src \<noteq> NULL" "0 < bytes"
  shows "\<exists>ts1 w1. SetUp ts w dst src bytes = Some (ts1, w1) \<and>
           usedTaskCount ts1 = min (1 + bytes div 1000000) (of_nat (length (tasks ts))) \<and>
           (1 < usedTaskCount ts1 \<longrightarrow>
              (\<forall>w'. Wait ts1 w' = w'\<lparr>trace := trace w' @ [SemaphoreWait (usedTaskCount ts1)]\<rparr>) \<and>
              (\<forall>sched. \<exists>w2. MemCopy ts sched w dst src bytes = Some (ts1, w2) \<and>
                   trace w2 = trace w @ map PoolRun (filter (\<lambda>i. i < length (tasks ts)) sched)
                                @ [SemaphoreWait (usedTaskCount ts1)]))"
proof -
  obtain ts1 w1 where s: "SetUp ts w dst src bytes = Some (ts1, w1)"
    and u: "usedTaskCount ts1 = min (1 + bytes div 1000000) (of_nat (length (tasks ts)))"
    and l: "length (tasks ts1) = length (tasks ts)"
    using SetUp_returns [OF assms] by blast
  have "(\<forall>w'. Wait ts1 w' = w'\<lparr>trace := trace w' @ [SemaphoreWait (usedTaskCount ts1)]\<rparr>) \<and>
              (\<forall>sched. \<exists>w2. MemCopy ts sched w dst src bytes = Some (ts1, w2) \<and>
                   trace w2 = trace w @ map PoolRun (filter (\<lambda>i. i < length (tasks ts)) sched)
                                @ [SemaphoreWait (usedTaskCount ts1)])"
    if many: "1 < usedTaskCount ts1"
  proof -
    have n1: "usedTaskCount ts1 \<noteq> 1" using many by auto
    then have "min (1 + bytes div 1000000) (of_nat (length (tasks ts)) :: size_t) \<noteq> 1"
      using u by simp
    from SetUp_parallel [OF assms this, of w] s have w1: "w1 = w" by simp
    have "trace (Wait ts1 (Execute ts1 sched w1))
            = trace w @ map PoolRun (filter (\<lambda>i. i < length (tasks ts)) sched)
                @ [SemaphoreWait (usedTaskCount ts1)]" for sched
      using n1 w1 l by (simp add: Wait_def Execute_def TaskSet_Execute_def fold_trace)
    then show ?thesis using n1 s by (simp add: Wait_def MemCopy_def)
  qed
  then show ?thesis using s u by blast
qed

theorem Wait_threshold_witness:
  "(16::addr) \<noteq> NULL \<and> (4000000::addr) \<noteq> NULL \<and> (0::size_t) < 2000001 \<and>
   (\<exists>ts1 w1. SetUp (TaskSet_CopyMemory_ctor 2) \<lparr>mem = (\<lambda>a. of_nat a), trace = []\<rparr> 16 4000000 2000001
                = Some (ts1, w1) \<and>
      usedTaskCount ts1 = 2 \<and> 1 < usedTaskCount ts1 \<and>
      Wait ts1 w1 = w1\<lparr>trace := trace w1 @ [SemaphoreWait 2]\<rparr> \<and>
      (\<exists>w2. MemCopy (TaskSet_CopyMemory_ctor 2) [1, 0] \<lparr>mem = (\<lambda>a. of_nat a), trace = []\<rparr>
               16 4000000 2000001 = Some (ts1, w2) \<and>
             trace w2 = [PoolRun 1, PoolRun 0, SemaphoreWait 2]))"
proof -
  let ?w = "\<lparr>mem = (\<lambda>a. of_nat a), trace = []\<rparr> :: world"
  have b: "(16::addr) \<noteq> NULL" "(4000000::addr) \<noteq> NULL" by (simp_all add: NULL_def)
  have c: "(0::size_t) < 2000001" by simp
  from Wait_threshold [OF b c, of "TaskSet_CopyMemory_ctor 2" ?w] obtain ts1 w1
    where s: "SetUp (TaskSet_CopyMemory_ctor 2) ?w 16 4000000 2000001 = Some (ts1, w1)"
      and u: "usedTaskCount ts1
                = min (1 + 2000001 div 1000000) (of_nat (length (tasks (TaskSet_CopyMemory_ctor 2))))"
      and m: "1 < usedTaskCount ts1 \<longrightarrow>
              (\<forall>w'. Wait ts1 w' = w'\<lparr>trace := trace w' @ [SemaphoreWait (usedTaskCount ts1)]\<rparr>) \<and>
              (\<forall>sched. \<exists>w2. MemCopy (TaskSet_CopyMemory_ctor 2) sched ?w 16 4000000 2000001 = Some (ts1, w2) \<and>
                   trace w2 = trace ?w
                     @ map PoolRun (filter (\<lambda>i. i < length (tasks (TaskSet_CopyMemory_ctor 2))) sched)
                     @ [SemaphoreWait (usedTaskCount ts1)])"
    by blast
  have u2: "usedTaskCount ts1 = 2" using u by (simp add: TaskSet_CopyMemory_ctor_def)
  then have many: "1 < usedTaskCount ts1" by simp
  from m many have wt: "Wait ts1 w1 = w1\<lparr>trace := trace w1 @ [SemaphoreWait (usedTaskCount ts1)]\<rparr>"
    by blast
  from m many obtain w2
    where mc: "MemCopy (TaskSet_CopyMemory_ctor 2) [1, 0] ?w 16 4000000 2000001 = Some (ts1, w2)"
      and tr: "trace w2 = trace ?w
                 @ map PoolRun (filter (\<lambda>i. i < length (tasks (TaskSet_CopyMemory_ctor 2))) [1, 0])
                 @ [SemaphoreWait (usedTaskCount ts1)]"
    by blast
  have "trace w2 = [PoolRun 1, PoolRun 0, SemaphoreWait 2]"
    using tr u2 by (simp add: TaskSet_CopyMemory_ctor_def)
  then show ?thesis using b c s u2 many wt mc by auto
qed

subsection \<open>Task parameters left over by the inline path\<close>

text \<open>
  A task set whose tasks still hold the request of an earlier parallel copy; a small
  request then takes the inline path. If the tasks were handed to the pool all the same,
  the task of slot 0 would copy its old chunk.
\<close>

lemma stale_tasks_would_copy:
  "\<exists>tsA ts1 w1.
     SetUp (TaskSet_CopyMemory_ctor 2) \<lparr>mem = (\<lambda>a. if a < 4000000 then 0 else 1), trace = []\<rparr>
       16 4000000 2000000
       = Some (tsA, \<lparr>mem = (\<lambda>a. if a < 4000000 then 0 else 1), trace = []\<rparr>) \<and>
     SetUp tsA \<lparr>mem = (\<lambda>a. if a < 4000000 then 0 else 1), trace = []\<rparr> 8000000 9000000 10
       = Some (ts1, w1) \<and>
     usedTaskCount ts1 = 1 \<and> tasks ts1 = tasks tsA \<and>
     mem (TaskSet_Execute ts1 [0] w1) 16 \<noteq> mem w1 16"
proof -
  let ?w = "\<lparr>mem = (\<lambda>a. if a < 4000000 then 0 else 1), trace = []\<rparr> :: world"
  let ?T = "[\<lparr>taskIndex = 0, task_usedTaskCount = 2, task_dst = 16, task_src = 4000000, task_bytes = 2000000\<rparr>,
             \<lparr>taskIndex = 1, task_usedTaskCount = 2, task_dst = 16, task_src = 4000000, task_bytes = 2000000\<rparr>]"
  let ?tsA = "\<lparr>tasks = ?T, usedTaskCount = 2\<rparr>"
  let ?w1 = "?w\<lparr>mem := memcpy (mem ?w) 8000000 9000000 (unat (10::size_t))\<rparr>"
  have n: "(2::size_t) \<noteq> 1" by simp
  have "[0..<2] = [0, 1]" by (simp add: upt_rec)
  then have a: "SetUp (TaskSet_CopyMemory_ctor 2) ?w 16 4000000 2000000 = Some (?tsA, ?w)"
    using n by (simp add: SetUp_def Let_def TaskSet_CopyMemory_ctor_def ATask_ctor_def ATask_SetUp_def NULL_def)
  have b: "SetUp ?tsA ?w 8000000 9000000 10 = Some (?tsA\<lparr>usedTaskCount := 1\<rparr>, ?w1)"
    by (simp add: SetUp_def Let_def NULL_def)
  have c: "chunk \<lparr>taskIndex = 0, task_usedTaskCount = 2, task_dst = 16, task_src = 4000000,
                   task_bytes = 2000000\<rparr> = Some (0, 1000000)"
    by (simp add: chunk_def word_le_nat_alt)
  have "mem (TaskSet_Execute (?tsA\<lparr>usedTaskCount := 1\<rparr>) [0] ?w1) 16 = 1"
    using c by (simp add: TaskSet_Execute_def run_slot_def ATask_Execute_def memcpy_def)
  moreover have "mem ?w1 16 = 0" by (simp add: memcpy_def)
  ultimately have "mem (TaskSet_Execute (?tsA\<lparr>usedTaskCount := 1\<rparr>) [0] ?w1) 16 \<noteq> mem ?w1 16"
    by simp
  with a b show ?thesis by (intro exI [of _ ?tsA] exI [of _ "?tsA\<lparr>usedTaskCount := 1\<rparr>"] exI [of _ ?w1]) simp
qed

text \<open>
  Claim C10. On the inline path (a used count of 1) \<^verbatim>\<open>SetUp\<close> returns before it configures
  the tasks: every task keeps the fields of the previous request, and of the task set only
  \<^verbatim>\<open>usedTaskCount_\<close> changes. \<^verbatim>\<open>Execute\<close> and \<^verbatim>\<open>Wait\<close> then return at once, whatever the
  tasks hold. Nothing else keeps the tasks from their old request: there is a task set,
  reached by two calls of \<^verbatim>\<open>SetUp\<close>, on which the submission of the base class would make
  a task write to the old destination.
\<close>

theorem degenerate_keeps_tasks:
  assumes "dst \<noteq> NULL" "src \<noteq> NULL" "0 < bytes"
  shows "(\<exists>ts1 w1. SetUp ts w dst src bytes = Some (ts1, w1) \<and>
            (usedTaskCount ts1 = 1 \<longrightarrow>
               tasks ts1 = tasks ts \<and> ts1 = ts\<lparr>usedTaskCount := 1\<rparr> \<and>
               (\<forall>sched w'. Execute ts1 sched w' = w' \<and> Wait ts1 w' = w'))) \<and>
         (\<exists>tsA ts1 w1.
            SetUp (TaskSet_CopyMemory_ctor 2) \<lparr>mem = (\<lambda>a. if a < 4000000 then 0 else 1), trace = []\<rparr>
              16 4000000 2000000
              = Some (tsA, \<lparr>mem = (\<lambda>a. if a < 4000000 then 0 else 1), trace = []\<rparr>) \<and>
            SetUp tsA \<lparr>mem = (\<lambda>a. if a < 4000000 then 0 else 1), trace = []\<rparr> 8000000 9000000 10
              = Some (ts1, w1) \<and>
            usedTaskCount ts1 = 1 \<and> tasks ts1 = tasks tsA \<and>
            mem (TaskSet_Execute ts1 [0] w1) 16 \<noteq> mem w1 16)"
proof (rule conjI)
  obtain ts1 w1 where s: "SetUp ts w dst src bytes = Some (ts1, w1)"
    and u: "usedTaskCount ts1 = min (1 + bytes div 1000000) (of_nat (length (tasks ts)))"
    using SetUp_returns [OF assms] by blast
  have "tasks ts1 = tasks ts \<and> ts1 = ts\<lparr>usedTaskCount := 1\<rparr> \<and>
          (\<forall>sched w'. Execute ts1 sched w' = w' \<and> Wait ts1 w' = w')"
    if one: "usedTaskCount ts1 = 1"
  proof -
    have "min (1 + bytes div 1000000) (of_nat (length (tasks ts)) :: size_t) = 1"
      using one u by simp
    from SetUp_degenerate [OF assms this, of w] s have "ts1 = ts\<lparr>usedTaskCount := 1\<rparr>" by simp
    then show ?thesis using one by (simp add: Execute_def Wait_def)
  qed
  then show "\<exists>ts1 w1. SetUp ts w dst src bytes = Some (ts1, w1) \<and>
            (usedTaskCount ts1 = 1 \<longrightarrow>
               tasks ts1 = tasks ts \<and> ts1 = ts\<lparr>usedTaskCount := 1\<rparr> \<and>
               (\<forall>sched w'. Execute ts1 sched w' = w' \<and> Wait ts1 w' = w'))"
    using s by blast
next
  show "\<exists>tsA ts1 w1.
            SetUp (TaskSet_CopyMemory_ctor 2) \<lparr>mem = (\<lambda>a. if a < 4000000 then 0 else 1), trace = []\<rparr>
              16 4000000 2000000
              = Some (tsA, \<lparr>mem = (\<lambda>a. if a < 4000000 then 0 else 1), trace = []\<rparr>) \<and>
            SetUp tsA \<lparr>mem = (\<lambda>a. if a < 4000000 then 0 else 1), trace = []\<rparr> 8000000 9000000 10
              = Some (ts1, w1) \<and>
            usedTaskCount ts1 = 1 \<and> tasks ts1 = tasks tsA \<and>
            mem (TaskSet_Execute ts1 [0] w1) 16 \<noteq> mem w1 16"
    by (rule stale_tasks_would_copy)
qed

theorem degenerate_keeps_tasks_witness:
  "(8000000::addr) \<noteq> NULL \<and> (9000000::addr) \<noteq> NULL \<and> (0::size_t) < 10 \<and>
   (\<exists>ts1 w1. SetUp \<lparr>tasks = [\<lparr>taskIndex = 0, task_usedTaskCount = 2, task_dst = 16,
                                 task_src = 4000000, task_bytes = 2000000\<rparr>,
                                \<lparr>taskIndex = 1, task_usedTaskCount = 2, task_dst = 16,
                                 task_src = 4000000, task_bytes = 2000000\<rparr>],
                       usedTaskCount = 2\<rparr>
                \<lparr>mem = (\<lambda>a. 0), trace = []\<rparr> 8000000 9000000 10 = Some (ts1, w1) \<and>
      usedTaskCount ts1 = 1 \<and>
      tasks ts1 = [\<lparr>taskIndex = 0, task_usedTaskCount = 2, task_dst = 16,
                    task_src = 4000000, task_bytes = 2000000\<rparr>,
                   \<lparr>taskIndex = 1, task_usedTaskCount = 2, task_dst = 16,
                    task_src = 4000000, task_bytes = 2000000\<rparr>] \<and>
      Execute ts1 [0, 1] w1 = w1 \<and> Wait ts1 w1 = w1)"
proof -
  let ?ts = "\<lparr>tasks = [\<lparr>taskIndex = 0, task_usedTaskCount = 2, task_dst = 16,
                                 task_src = 4000000, task_bytes = 2000000\<rparr>,
                                \<lparr>taskIndex = 1, task_usedTaskCount = 2, task_dst = 16,
                                 task_src = 4000000, task_bytes = 2000000\<rparr>],
                       usedTaskCount = 2\<rparr>"
  let ?w = "\<lparr>mem = (\<lambda>a. 0), trace = []\<rparr> :: world"
  have b: "(8000000::addr) \<noteq> NULL" "(9000000::addr) \<noteq> NULL" by (simp_all add: NULL_def)
  have c: "(0::size_t) < 10" by simp
  from degenerate_keeps_tasks [OF b c, of ?ts ?w] obtain ts1 w1
    where s: "SetUp ?ts ?w 8000000 9000000 10 = Some (ts1, w1)"
      and k: "usedTaskCount ts1 = 1 \<longrightarrow>
               tasks ts1 = tasks ?ts \<and> ts1 = ?ts\<lparr>usedTaskCount := 1\<rparr> \<and>
               (\<forall>sched w'. Execute ts1 sched w' = w' \<and> Wait ts1 w' = w')"
    by blast
  from SetUp_returns [OF b c, of ?ts ?w] s
  have "usedTaskCount ts1 = min (1 + 10 div 1000000) (of_nat (length (tasks ?ts)))"
    by auto
  then have one: "usedTaskCount ts1 = 1" by simp
  with k have "tasks ts1 = tasks ?ts" "Execute ts1 [0, 1] w1 = w1" "Wait ts1 w1 = w1"
    by blast+
  then show ?thesis using b c s one by simp
qed

end
